theory Spec2Isabelle
  imports Complex_Main
begin

section \<open>The crafting-check simulation (main.py)\<close>

text \<open>
  The program estimates how often a crafting attempt fails.  An attempt is a series of d20
  checks against a difficulty class; it succeeds once enough checks have succeeded and
  fails at the third failed check in a row.

  Modelling decisions.
  \<^item> Python integers are \<open>int\<close>.  The rolls live in a numpy array of 64-bit signed integers:
    adding the modifier to it wraps around modulo \<open>2^64\<close>, and a modifier that is not a
    64-bit signed integer raises OverflowError.  The comparison with the difficulty class
    is exact.
  \<^item> The process-wide numpy generator is an explicit state \<open>rng\<close>: the infinite sequence of
    raw values it is going to produce and the number of values drawn so far.  Every
    function that draws takes the state and returns the new one.
  \<^item> Exceptions are values of type \<open>error\<close>; a function that can raise returns
    \<open>error + result\<close>.
  \<^item> \<open>craft\<close> calls itself, so the depth of the interpreter's call stack matters: \<open>craft\<close>
    takes the number of stack frames the interpreter still allows and raises
    RecursionError when they do not suffice.
  \<^item> The last line of the program computes \<open>(1 - sum/len) * 100\<close> in binary floating point
    and formats it with \<open>:.0f\<close>.  Floating-point numbers are the rationals they denote, and
    every operation rounds its exact result to the nearest number with a 53-bit
    significand, ties to even.
\<close>

subsection \<open>The random generator\<close>

record rng =
  entropy :: "nat \<Rightarrow> nat"
  position :: nat

definition advance :: "nat \<Rightarrow> rng \<Rightarrow> rng" where
  "advance n g = g\<lparr>position := position g + n\<rparr>"

datatype error = ValueError | OverflowError | RecursionError | ZeroDivisionError

subsection \<open>64-bit integers\<close>

definition in_int64 :: "int \<Rightarrow> bool" where
  "in_int64 x = (- (2 ^ 63) \<le> x \<and> x < 2 ^ 63)"

text \<open>The 64-bit signed integer that an exact result wraps around to.\<close>

definition int64_wrap :: "int \<Rightarrow> int" where
  "int64_wrap x = (x + 2 ^ 63) mod 2 ^ 64 - 2 ^ 63"

text \<open>
  \<open>np.random.randint(low, high, size=size)\<close>, a library function: \<open>size\<close> 64-bit integers
  from \<open>low\<close> (inclusive) to \<open>high\<close> (exclusive), each computed from the next raw value of the
  generator.  An empty request returns the empty array before the bounds are looked at;
  otherwise bounds outside the 64-bit integers, \<open>low >= high\<close> and a negative size raise
  ValueError.
\<close>

definition np_random_randint :: "int \<Rightarrow> int \<Rightarrow> int \<Rightarrow> rng \<Rightarrow> error + (int list \<times> rng)" where
  "np_random_randint low high size' g =
     (if size' = 0 then Inr ([], g)
      else if low < - (2 ^ 63) then Inl ValueError
      else if 2 ^ 63 - 1 < high - 1 then Inl ValueError
      else if high \<le> low then Inl ValueError
      else if size' < 0 then Inl ValueError
      else Inr (map (\<lambda>i. low + int (entropy g (position g + i) mod nat (high - low)))
                  [0..<nat size'],
                advance (nat size') g))"

subsection \<open>roll and make\_checks\<close>

definition roll :: "int \<Rightarrow> int \<Rightarrow> rng \<Rightarrow> error + (int list \<times> rng)" where
  "roll die number g = np_random_randint 1 (die + 1) number g"

text \<open>
  \<open>roll(die=20, number=number) + modifier >= dc\<close>: the rolls are drawn first; the modifier
  is then converted to a 64-bit integer, which raises OverflowError when it is not one;
  the sum wraps around; the comparison is exact.
\<close>

definition make_checks :: "int \<Rightarrow> int \<Rightarrow> int \<Rightarrow> rng \<Rightarrow> error + (bool list \<times> rng)" where
  "make_checks dc modifier number g =
     (case roll 20 number g of
        Inl e \<Rightarrow> Inl e
      | Inr (rolls, g') \<Rightarrow>
          (if in_int64 modifier
           then Inr (map (\<lambda>r. int64_wrap (r + modifier) \<ge> dc) rolls, g')
           else Inl OverflowError))"

subsection \<open>craft\<close>

definition ROLL_CHUNK :: int where
  "ROLL_CHUNK = 100"

text \<open>
  What one iteration of the \<open>for\<close> loop of \<open>craft\<close> does with a check result: it returns
  from \<open>craft\<close>, or goes on with the new values of \<open>n_successes\<close> and \<open>n_consec_fails\<close>.
\<close>

datatype outcome = Returned bool | Continue int int

definition craft_body :: "int \<Rightarrow> int \<Rightarrow> int \<Rightarrow> bool \<Rightarrow> outcome" where
  "craft_body successes_required n_successes n_consec_fails result =
     (if result then
        (let n_successes = n_successes + 1; n_consec_fails = 0
         in if n_successes \<ge> successes_required then Returned True
            else Continue n_successes n_consec_fails)
      else
        (let n_consec_fails = n_consec_fails + 1
         in if n_consec_fails \<ge> 3 then Returned False
            else Continue n_successes n_consec_fails))"

text \<open>The \<open>for\<close> loop over one array of check results; \<open>Continue\<close> when the array runs out.\<close>

fun craft_loop :: "int \<Rightarrow> int \<Rightarrow> int \<Rightarrow> bool list \<Rightarrow> outcome" where
  "craft_loop successes_required n_successes n_consec_fails [] =
     Continue n_successes n_consec_fails"
| "craft_loop successes_required n_successes n_consec_fails (result # results) =
     (case craft_body successes_required n_successes n_consec_fails result of
        Returned b \<Rightarrow> Returned b
      | Continue n_successes' n_consec_fails' \<Rightarrow>
          craft_loop successes_required n_successes' n_consec_fails' results)"

text \<open>
  The number of iterations the \<open>for\<close> loop executes on an array of check results: the
  iteration that returns is the last one counted.
\<close>

fun craft_loop_iterations :: "int \<Rightarrow> int \<Rightarrow> int \<Rightarrow> bool list \<Rightarrow> nat" where
  "craft_loop_iterations successes_required n_successes n_consec_fails [] = 0"
| "craft_loop_iterations successes_required n_successes n_consec_fails (result # results) =
     (case craft_body successes_required n_successes n_consec_fails result of
        Returned b \<Rightarrow> 1
      | Continue n_successes' n_consec_fails' \<Rightarrow>
          1 + craft_loop_iterations successes_required n_successes' n_consec_fails' results)"

text \<open>
  \<open>craft\<close>.  Its first argument is the number of stack frames the interpreter still allows
  at the call.  An invocation needs three: its own, and those of \<open>make_checks\<close> and \<open>roll\<close>
  inside it; with fewer the interpreter raises RecursionError before anything is drawn.
  The nested invocation in the last line finds one frame fewer.
\<close>

fun craft :: "nat \<Rightarrow> int \<Rightarrow> int \<Rightarrow> int \<Rightarrow> int \<Rightarrow> int \<Rightarrow> rng \<Rightarrow> error + (bool \<times> rng)" where
  "craft frames dc modifier successes_required n_successes n_consec_fails g =
     (if frames < 3 then Inl RecursionError
      else
        (case make_checks dc modifier ROLL_CHUNK g of
           Inl e \<Rightarrow> Inl e
         | Inr (results, g') \<Rightarrow>
             (case craft_loop successes_required n_successes n_consec_fails results of
                Returned b \<Rightarrow> Inr (b, g')
              | Continue n_successes' n_consec_fails' \<Rightarrow>
                  craft (frames - 1) dc modifier successes_required
                    n_successes' n_consec_fails' g')))"

subsection \<open>Floating point and formatting\<close>

text \<open>The integer nearest to a rational, the even one of two that are equally near.\<close>

definition round_half_even :: "rat \<Rightarrow> int" where
  "round_half_even t =
     (let f = \<lfloor>t\<rfloor>; r = t - of_int f
      in if r < 1 / 2 then f
         else if 1 / 2 < r then f + 1
         else if even f then f else f + 1)"

text \<open>The number of binary digits of a natural number.\<close>

fun bit_length :: "nat \<Rightarrow> nat" where
  "bit_length n = (if n = 0 then 0 else Suc (bit_length (n div 2)))"

text \<open>The exponent \<open>e\<close> of a positive rational \<open>x\<close>: \<open>2^e \<le> x < 2^(e+1)\<close>.\<close>

definition binade :: "rat \<Rightarrow> int" where
  "binade x =
     (if 1 \<le> x then int (bit_length (nat \<lfloor>x\<rfloor>)) - 1
      else - int (bit_length (nat \<lceil>1 / x\<rceil> - 1)))"

text \<open>
  Rounding an exact result to binary64: to the nearest multiple of \<open>2^(e-52)\<close>, ties to
  even, for a result with exponent \<open>e\<close>.  Overflow to infinity and subnormal numbers are
  out of reach of what the program computes (quotients of list lengths, at most 100).
\<close>

definition float64 :: "rat \<Rightarrow> rat" where
  "float64 x =
     (if x = 0 then 0
      else (let u = 2 powi (binade \<bar>x\<bar> - 52)
            in sgn x * of_int (round_half_even (\<bar>x\<bar> / u)) * u))"

text \<open>\<open>(1 - s/l) * 100\<close> for integers \<open>s\<close> and \<open>l\<close>: a true division, a subtraction, a product.\<close>

definition percent_failure :: "nat \<Rightarrow> nat \<Rightarrow> rat" where
  "percent_failure s l = float64 (float64 (1 - float64 (of_nat s / of_nat l)) * 100)"

text \<open>A natural number in decimal.\<close>

fun decimal :: "nat \<Rightarrow> string" where
  "decimal n =
     (if n < 10 then [''0123456789'' ! n]
      else decimal (n div 10) @ [''0123456789'' ! (n mod 10)])"

text \<open>
  The format \<open>:.0f\<close>: the nearest integer, ties to even, with the sign of the number (a
  negative number that rounds to zero prints as \<open>-0\<close>).
\<close>

definition format_0f :: "rat \<Rightarrow> string" where
  "format_0f v = (if v < 0 then ''-'' else []) @ decimal (nat \<bar>round_half_even v\<bar>)"

subsection \<open>The main block\<close>

text \<open>
  The list comprehension \<open>[craft(...) for _ in range(n)]\<close>, for \<open>n\<close> iterations; each call of
  \<open>craft\<close> finds the same number of stack frames.
\<close>

fun repeated_craft ::
  "nat \<Rightarrow> nat \<Rightarrow> int \<Rightarrow> int \<Rightarrow> int \<Rightarrow> rng \<Rightarrow> error + (bool list \<times> rng)" where
  "repeated_craft frames 0 dc modifier successes_required g = Inr ([], g)"
| "repeated_craft frames (Suc n) dc modifier successes_required g =
     (case craft frames dc modifier successes_required 0 0 g of
        Inl e \<Rightarrow> Inl e
      | Inr (b, g') \<Rightarrow>
          (case repeated_craft frames n dc modifier successes_required g' of
             Inl e \<Rightarrow> Inl e
           | Inr (bs, g'') \<Rightarrow> Inr (b # bs, g'')))"

text \<open>
  The main block with its four constants as parameters, after the number of stack frames
  left for each call of \<open>craft\<close>.  \<open>range(n_repeats)\<close> is empty for a count below 1.
  \<open>sum(repeated_craft)\<close> counts the True outcomes; dividing by a length of 0 raises.  The
  result is the line printed.
\<close>

definition main :: "nat \<Rightarrow> int \<Rightarrow> int \<Rightarrow> int \<Rightarrow> int \<Rightarrow> rng \<Rightarrow> error + (string \<times> rng)" where
  "main frames dc modifier successes_required n_repeats g =
     (case repeated_craft frames (nat n_repeats) dc modifier successes_required g of
        Inl e \<Rightarrow> Inl e
      | Inr (bs, g') \<Rightarrow>
          (if length bs = 0 then Inl ZeroDivisionError
           else Inr (''percent failure:''
                       @ format_0f (percent_failure (length (filter (\<lambda>b. b) bs)) (length bs)),
                     g')))"

subsection \<open>The sequence of checks a generator holds\<close>

text \<open>
  The \<open>i\<close>-th d20 value that a generator in state \<open>g\<close> is going to hand out, the check
  made from it, and the first \<open>n\<close> checks as a list.
\<close>

definition d20 :: "rng \<Rightarrow> nat \<Rightarrow> int" where
  "d20 g i = 1 + int (entropy g (position g + i) mod 20)"

definition check_at :: "int \<Rightarrow> int \<Rightarrow> rng \<Rightarrow> nat \<Rightarrow> bool" where
  "check_at dc modifier g i = (int64_wrap (d20 g i + modifier) \<ge> dc)"

definition check_seq :: "int \<Rightarrow> int \<Rightarrow> rng \<Rightarrow> nat \<Rightarrow> bool list" where
  "check_seq dc modifier g n = map (check_at dc modifier g) [0..<n]"

text \<open>A generator at its start whose raw values are all \<open>v\<close>: every d20 shows \<open>1 + v mod 20\<close>.\<close>

definition constant_rng :: "nat \<Rightarrow> rng" where
  "constant_rng v = \<lparr>entropy = (\<lambda>i. v), position = 0\<rparr>"

text \<open>A list of check results that holds three failures in a row.\<close>

fun three_fails :: "bool list \<Rightarrow> bool" where
  "three_fails (a # b # c # rs) = ((\<not> a \<and> \<not> b \<and> \<not> c) \<or> three_fails (b # c # rs))"
| "three_fails rs = False"

text \<open>The number of successes in a list of check results.\<close>

definition successes_in :: "bool list \<Rightarrow> int" where
  "successes_in rs = int (length (filter (\<lambda>r. r) rs))"

subsection \<open>The specification's attempt simulator, for any batch size\<close>

text \<open>
  The attempt simulator as the specification words it: the same transition rule, applied
  to the checks in the order they are generated, with the checks requested \<open>batch\<close> at a
  time by a loop (the specification's own redesign of the recursion).  \<open>batch = 1\<close> is the
  unbatched simulator, one check at a time.  The specification speaks of positive batch
  sizes only; a batch size of 0 is rejected.
\<close>

function simulate_attempt ::
  "nat \<Rightarrow> int \<Rightarrow> int \<Rightarrow> int \<Rightarrow> int \<Rightarrow> int \<Rightarrow> rng \<Rightarrow> error + (bool \<times> rng)" where
  "simulate_attempt batch threshold modifier required_successes successes consec_fails g =
     (if batch = 0 then Inl ValueError
      else
        (case make_checks threshold modifier (int batch) g of
           Inl e \<Rightarrow> Inl e
         | Inr (results, g') \<Rightarrow>
             (case craft_loop required_successes successes consec_fails results of
                Returned b \<Rightarrow> Inr (b, g')
              | Continue successes' consec_fails' \<Rightarrow>
                  simulate_attempt batch threshold modifier required_successes
                    successes' consec_fails' g')))"
  by pat_completeness auto

text \<open>
  The specification's invalid-configuration error: an error that reports a parameter
  value as invalid.  Of the exceptions the program can raise, ValueError is of this
  kind; the others report an arithmetic operation or the call stack.
\<close>

fun is_configuration_error :: "error \<Rightarrow> bool" where
  "is_configuration_error ValueError = True"
| "is_configuration_error OverflowError = False"
| "is_configuration_error RecursionError = False"
| "is_configuration_error ZeroDivisionError = False"

section \<open>The measure of an attempt\<close>

lemma craft_body_measure:
  "craft_body req s c r = Continue s' c' \<Longrightarrow>
     3 * nat (req - s') + nat (2 - c') + 1 \<le> 3 * nat (req - s) + nat (2 - c)"
  by (auto simp: craft_body_def Let_def split: if_splits)

lemma craft_loop_measure:
  "craft_loop req s c rs = Continue s' c' \<Longrightarrow>
     3 * nat (req - s') + nat (2 - c') + length rs \<le> 3 * nat (req - s) + nat (2 - c)"
proof (induction rs arbitrary: s c)
  case Nil
  then show ?case by simp
next
  case (Cons r rs)
  from Cons.prems obtain s1 c1 where
    b: "craft_body req s c r = Continue s1 c1" and
    l: "craft_loop req s1 c1 rs = Continue s' c'"
    by (auto split: outcome.splits)
  from Cons.IH [OF l] craft_body_measure [OF b] show ?case by simp
qed

lemma make_checks_length:
  "make_checks dc m n g = Inr (rs, g') \<Longrightarrow> length rs = nat n"
  by (auto simp: make_checks_def roll_def np_random_randint_def
           split: sum.splits if_splits)

termination simulate_attempt
proof (relation "measure (\<lambda>(b, dc, m, req, s, c, g). 3 * nat (req - s) + nat (2 - c))")
  show "wf (measure (\<lambda>(b :: nat, dc :: int, m :: int, req, s, c, g :: rng).
              3 * nat (req - s) + nat (2 - c)))"
    by simp
next
  fix batch :: nat and threshold modifier required_successes successes consec_fails :: int
  fix g :: rng and x2 :: "bool list \<times> rng" and results g' s' c'
  assume pos: "batch \<noteq> 0"
    and mk: "make_checks threshold modifier (int batch) g = Inr x2"
    and x2: "(results, g') = x2"
    and lp: "craft_loop required_successes successes consec_fails results = Continue s' c'"
  from mk x2 pos have "1 \<le> length results"
    using make_checks_length [of threshold modifier "int batch" g results g'] by simp
  with craft_loop_measure [OF lp]
  show "((batch, threshold, modifier, required_successes, s', c', g'),
         (batch, threshold, modifier, required_successes, successes, consec_fails, g))
        \<in> measure (\<lambda>(b, dc, m, req, s, c, g). 3 * nat (req - s) + nat (2 - c))"
    by simp
qed

declare craft.simps [simp del]
declare simulate_attempt.simps [simp del]
declare bit_length.simps [simp del]
declare decimal.simps [simp del]

section \<open>The generator's sequence and the loop\<close>

lemma advance_0: "advance 0 g = g"
  by (simp add: advance_def)

lemma advance_advance: "advance a (advance b g) = advance (b + a) g"
  by (simp add: advance_def add.assoc)

lemma position_advance: "position (advance n g) = position g + n"
  by (simp add: advance_def)

lemma d20_advance: "d20 (advance a g) i = d20 g (a + i)"
  by (simp add: d20_def advance_def add.assoc)

lemma d20_range: "1 \<le> d20 g i \<and> d20 g i \<le> 20"
  by (simp add: d20_def)

lemma check_at_advance: "check_at dc m (advance a g) i = check_at dc m g (a + i)"
  by (simp add: check_at_def d20_advance)

lemma length_check_seq: "length (check_seq dc m g n) = n"
  by (simp add: check_seq_def)

lemma check_seq_add:
  "check_seq dc m g (a + b) = check_seq dc m g a @ check_seq dc m (advance a g) b"
proof -
  have "[0..<a + b] = [0..<a] @ [a..<a + b]"
    by (rule upt_add_eq_append) simp
  moreover have "[a..<a + b] = map (\<lambda>i. a + i) [0..<b]"
    using map_add_upt [of a b] by (simp add: add.commute)
  ultimately show ?thesis
    by (simp add: check_seq_def check_at_advance comp_def)
qed

lemma take_check_seq: "n \<le> k \<Longrightarrow> take n (check_seq dc m g k) = check_seq dc m g n"
  using check_seq_add [of dc m g n "k - n"] by (simp add: length_check_seq)

lemma roll_20:
  "0 \<le> n \<Longrightarrow> roll 20 n g = Inr (map (d20 g) [0..<nat n], advance (nat n) g)"
  by (simp add: roll_def np_random_randint_def d20_def advance_0)

lemma make_checks_eq:
  "0 \<le> n \<Longrightarrow> in_int64 m \<Longrightarrow>
     make_checks dc m n g = Inr (check_seq dc m g (nat n), advance (nat n) g)"
  by (simp add: make_checks_def roll_20 check_seq_def check_at_def comp_def)

lemma make_checks_overflow:
  "0 \<le> n \<Longrightarrow> \<not> in_int64 m \<Longrightarrow> make_checks dc m n g = Inl OverflowError"
  by (simp add: make_checks_def roll_20)

lemma make_checks_chunk:
  "in_int64 m \<Longrightarrow>
     make_checks dc m ROLL_CHUNK g = Inr (check_seq dc m g 100, advance 100 g)"
  by (simp add: make_checks_eq ROLL_CHUNK_def)

text \<open>Wrapping around.\<close>

lemma int64_wrap_id: "in_int64 x \<Longrightarrow> int64_wrap x = x"
  by (simp add: in_int64_def int64_wrap_def)

lemma int64_wrap_le: "- (2 ^ 63) \<le> x \<Longrightarrow> int64_wrap x \<le> x"
proof -
  assume "- (2 ^ 63) \<le> x"
  then have "0 \<le> x + 2 ^ 63" by simp
  then have "(x + 2 ^ 63) mod 2 ^ 64 \<le> x + 2 ^ 63"
    by (rule zmod_le_nonneg_dividend)
  then show ?thesis by (simp add: int64_wrap_def)
qed

text \<open>Running the loop over two arrays, one after the other.\<close>

lemma craft_loop_append:
  "craft_loop req s c (xs @ ys) =
     (case craft_loop req s c xs of
        Returned b \<Rightarrow> Returned b
      | Continue s' c' \<Rightarrow> craft_loop req s' c' ys)"
  by (induction xs arbitrary: s c) (auto split: outcome.splits)

text \<open>One invocation of \<open>craft\<close>, on the generator's own sequence of checks.\<close>

lemma craft_no_frames: "frames < 3 \<Longrightarrow> craft frames dc m req s c g = Inl RecursionError"
  by (subst craft.simps) simp

lemma craft_overflow:
  "3 \<le> frames \<Longrightarrow> \<not> in_int64 m \<Longrightarrow> craft frames dc m req s c g = Inl OverflowError"
  by (subst craft.simps) (simp add: make_checks_overflow ROLL_CHUNK_def)

lemma craft_unfold:
  "3 \<le> frames \<Longrightarrow> in_int64 m \<Longrightarrow>
   craft frames dc m req s c g =
     (case craft_loop req s c (check_seq dc m g 100) of
        Returned b \<Rightarrow> Inr (b, advance 100 g)
      | Continue s' c' \<Rightarrow> craft (frames - 1) dc m req s' c' (advance 100 g))"
  by (subst craft.simps) (simp add: make_checks_chunk)


text \<open>
  Whenever \<open>craft\<close> returns, it returns what the loop returns on the first \<open>100 * k\<close> checks
  of the generator, and the loop had not returned on the first \<open>100 * (k - 1)\<close>.
\<close>

lemma craft_returns:
  "craft frames dc m req s c g = Inr (b, g') \<Longrightarrow>
     in_int64 m \<and>
     (\<exists>k s' c'. 1 \<le> k \<and> k + 2 \<le> frames \<and> g' = advance (100 * k) g
        \<and> craft_loop req s c (check_seq dc m g (100 * k)) = Returned b
        \<and> craft_loop req s c (check_seq dc m g (100 * (k - 1))) = Continue s' c')"
proof (induction frames arbitrary: s c g)
  case 0
  then show ?case by (simp add: craft_no_frames)
next
  case (Suc n)
  show ?case
  proof (cases "Suc n < 3")
    case True
    with Suc.prems show ?thesis by (simp add: craft_no_frames)
  next
    case False
    then have f3: "3 \<le> Suc n" by simp
    have m: "in_int64 m"
    proof (rule ccontr)
      assume "\<not> in_int64 m"
      from craft_overflow [OF f3 this] Suc.prems show False by simp
    qed
    show ?thesis
    proof (cases "craft_loop req s c (check_seq dc m g 100)")
      case (Returned b')
      with Suc.prems have "b' = b" "g' = advance 100 g"
        by (simp_all add: craft_unfold [OF f3 m])
      with Returned f3 m show ?thesis
        by (intro conjI exI [of _ 1] exI [of _ s] exI [of _ c]) (simp_all add: check_seq_def)
    next
      case (Continue s1 c1)
      with Suc.prems have "craft n dc m req s1 c1 (advance 100 g) = Inr (b, g')"
        by (simp add: craft_unfold [OF f3 m])
      from Suc.IH [OF this] obtain k s' c' where
        k: "1 \<le> k" "k + 2 \<le> n" and g': "g' = advance (100 * k) (advance 100 g)" and
        lp: "craft_loop req s1 c1 (check_seq dc m (advance 100 g) (100 * k)) = Returned b" and
        lq: "craft_loop req s1 c1 (check_seq dc m (advance 100 g) (100 * (k - 1)))
               = Continue s' c'"
        by blast
      have 1: "craft_loop req s c (check_seq dc m g (100 * Suc k)) = Returned b"
        using check_seq_add [of dc m g 100 "100 * k"]
        by (simp add: craft_loop_append Continue lp)
      have "check_seq dc m g (100 * (Suc k - 1))
          = check_seq dc m g 100 @ check_seq dc m (advance 100 g) (100 * (k - 1))"
      proof -
        from k have "100 * (Suc k - 1) = 100 + 100 * (k - 1)" by simp
        then show ?thesis
          by (simp only: check_seq_add [of dc m g 100 "100 * (k - 1)"])
      qed
      then have 2: "craft_loop req s c (check_seq dc m g (100 * (Suc k - 1))) = Continue s' c'"
        using Continue lq by (simp add: craft_loop_append)
      from g' have 3: "g' = advance (100 * Suc k) g"
        by (simp add: advance_advance)
      from k 1 2 3 m show ?thesis
        by (intro conjI exI [of _ "Suc k"] exI [of _ s'] exI [of _ c']) simp_all
    qed
  qed
qed


section \<open>Iterations of the loop\<close>

lemma craft_loop_iterations_le: "craft_loop_iterations req s c rs \<le> length rs"
  by (induction rs arbitrary: s c) (auto split: outcome.splits)

lemma craft_loop_iterations_Continue:
  "craft_loop req s c rs = Continue s' c' \<Longrightarrow> craft_loop_iterations req s c rs = length rs"
  by (induction rs arbitrary: s c) (auto split: outcome.splits)

text \<open>
  The count of iterations is the length of the prefix at which the loop returns: on the
  prefix one shorter the loop still goes on.
\<close>

lemma craft_loop_iterations_Returned:
  "craft_loop req s c rs = Returned b \<Longrightarrow>
     1 \<le> craft_loop_iterations req s c rs
     \<and> craft_loop req s c (take (craft_loop_iterations req s c rs) rs) = Returned b
     \<and> (\<exists>s' c'. craft_loop req s c (take (craft_loop_iterations req s c rs - 1) rs)
                   = Continue s' c')"
proof (induction rs arbitrary: s c)
  case Nil
  then show ?case by simp
next
  case (Cons r rs)
  show ?case
  proof (cases "craft_body req s c r")
    case (Returned b')
    with Cons.prems show ?thesis by simp
  next
    case (Continue s1 c1)
    with Cons.prems have l: "craft_loop req s1 c1 rs = Returned b" by simp
    let ?n = "craft_loop_iterations req s1 c1 rs"
    from Cons.IH [OF l] obtain s' c' where
      n: "1 \<le> ?n" and
      a: "craft_loop req s1 c1 (take ?n rs) = Returned b" and
      b: "craft_loop req s1 c1 (take (?n - 1) rs) = Continue s' c'"
      by blast
    from n obtain j where j: "?n = Suc j" by (cases ?n) simp_all
    from Continue a b j show ?thesis by simp
  qed
qed

section \<open>The invariant of the loop\<close>

lemma three_fails_True [simp]: "three_fails (True # rs) = three_fails rs"
  by (cases rs rule: three_fails.cases) simp_all

lemma three_fails_Cons: "three_fails rs \<Longrightarrow> three_fails (r # rs)"
  by (cases rs rule: three_fails.cases) auto

lemma three_fails_append_left: "three_fails rs \<Longrightarrow> three_fails (ps @ rs)"
  by (induction ps) (auto intro: three_fails_Cons)

lemma three_fails_append_right: "three_fails rs \<Longrightarrow> three_fails (rs @ ss)"
  by (induction rs rule: three_fails.induct) auto

lemma three_fails_take: "three_fails (take n rs) \<Longrightarrow> three_fails rs"
  using three_fails_append_right [of "take n rs" "drop n rs"] by simp

lemma three_fails_snoc_True: "three_fails (xs @ [True]) = three_fails xs"
  by (induction xs rule: three_fails.induct) auto

lemma replicate_shift: "replicate n x @ x # xs = x # replicate n x @ xs"
  by (induction n) simp_all

lemma three_fails_second_True: "three_fails (x # True # rs) = three_fails rs"
  by (cases rs) simp_all

lemma three_fails_third_True: "three_fails (x # y # True # rs) = three_fails rs"
  by (simp add: three_fails_second_True)

lemma three_fails_after_success:
  "k \<le> 2 \<Longrightarrow> three_fails (replicate k False @ True # rs) = three_fails rs"
proof -
  assume "k \<le> 2"
  then consider "k = 0" | "k = 1" | "k = 2" by linarith
  then show ?thesis
    by cases
      (simp_all add: numeral_2_eq_2 three_fails_second_True three_fails_third_True)
qed

lemma successes_in_Nil [simp]: "successes_in [] = 0"
  by (simp add: successes_in_def)

lemma successes_in_Cons [simp]:
  "successes_in (r # rs) = (if r then 1 else 0) + successes_in rs"
  by (simp add: successes_in_def)

lemma successes_in_append [simp]:
  "successes_in (xs @ ys) = successes_in xs + successes_in ys"
  by (simp add: successes_in_def)

lemma successes_in_nonneg: "0 \<le> successes_in rs"
  by (simp add: successes_in_def)

text \<open>
  What holds while the loop goes on from the counters \<open>s0\<close>, \<open>c0\<close>: the failure counter stays
  in 0..2, the success counter has grown by the number of successful checks, it is below
  the requirement unless no check has succeeded, and the checks consumed, after the
  failures the loop started with, hold no three failures in a row.
\<close>

lemma craft_loop_progress:
  "craft_loop req s0 c0 rs = Continue s c \<Longrightarrow> 0 \<le> c0 \<Longrightarrow> c0 \<le> 2 \<Longrightarrow>
     0 \<le> c \<and> c \<le> 2 \<and> s = s0 + successes_in rs \<and> (s = s0 \<or> s < req)
     \<and> \<not> three_fails (replicate (nat c0) False @ rs)"
proof (induction rs arbitrary: s0 c0)
  case Nil
  from Nil.prems(2,3) consider "c0 = 0" | "c0 = 1" | "c0 = 2" by linarith
  then have "\<not> three_fails (replicate (nat c0) False)"
    by cases (simp_all add: numeral_2_eq_2)
  with Nil show ?case by simp
next
  case (Cons r rs)
  from Cons.prems(1) obtain s1 c1 where
    b: "craft_body req s0 c0 r = Continue s1 c1" and
    l: "craft_loop req s1 c1 rs = Continue s c"
    by (auto split: outcome.splits)
  from b Cons.prems(2,3) have
    st: "0 \<le> c1" "c1 \<le> 2" "s1 = s0 + (if r then 1 else 0)" "r \<longrightarrow> s1 < req"
      "c1 = (if r then 0 else c0 + 1)"
    by (auto simp: craft_body_def Let_def split: if_splits)
  from Cons.IH [OF l st(1,2)] have
    ih: "0 \<le> c" "c \<le> 2" "s = s1 + successes_in rs" "s = s1 \<or> s < req"
      "\<not> three_fails (replicate (nat c1) False @ rs)"
    by blast+
  have "\<not> three_fails (replicate (nat c0) False @ r # rs)"
  proof (cases r)
    case True
    with ih(5) st(5) have "\<not> three_fails rs" by simp
    moreover from Cons.prems(2,3) have "nat c0 \<le> 2" by simp
    ultimately show ?thesis
      using True by (simp add: three_fails_after_success)
  next
    case False
    with st(5) Cons.prems(2) have "nat c1 = Suc (nat c0)" by simp
    with ih(5) False show ?thesis
      by (simp add: replicate_shift)
  qed
  moreover from ih(4) st(3,4) have "s = s0 \<or> s < req"
    by (cases r) auto
  ultimately show ?case
    using ih(1,2,3) st(3) by simp
qed

text \<open>One more check after a list on which the loop goes on.\<close>

lemma craft_loop_snoc:
  "craft_loop req s0 c0 rs = Continue s c \<Longrightarrow>
     craft_loop req s0 c0 (rs @ [r]) = craft_body req s c r"
  by (simp add: craft_loop_append split: outcome.splits)

text \<open>The last check the loop consumes when it returns.\<close>

lemma craft_loop_last:
  assumes "craft_loop req s0 c0 rs = Returned b"
  shows "\<exists>s c. craft_loop req s0 c0 (take (craft_loop_iterations req s0 c0 rs - 1) rs)
                  = Continue s c
          \<and> craft_body req s c (rs ! (craft_loop_iterations req s0 c0 rs - 1)) = Returned b
          \<and> take (craft_loop_iterations req s0 c0 rs) rs
              = take (craft_loop_iterations req s0 c0 rs - 1) rs
                @ [rs ! (craft_loop_iterations req s0 c0 rs - 1)]"
proof -
  let ?n = "craft_loop_iterations req s0 c0 rs"
  from craft_loop_iterations_Returned [OF assms] obtain s c where
    n: "1 \<le> ?n" and
    a: "craft_loop req s0 c0 (take ?n rs) = Returned b" and
    b: "craft_loop req s0 c0 (take (?n - 1) rs) = Continue s c"
    by blast
  from n craft_loop_iterations_le [of req s0 c0 rs] have lt: "?n - 1 < length rs"
    by linarith
  from n have "?n = Suc (?n - 1)" by simp
  then have "take ?n rs = take (Suc (?n - 1)) rs" by simp
  also from lt have "\<dots> = take (?n - 1) rs @ [rs ! (?n - 1)]"
    by (rule take_Suc_conv_app_nth)
  finally have t: "take ?n rs = take (?n - 1) rs @ [rs ! (?n - 1)]" .
  from a t craft_loop_snoc [OF b, of "rs ! (?n - 1)"]
  have "craft_body req s c (rs ! (?n - 1)) = Returned b" by simp
  with b t show ?thesis by blast
qed

text \<open>
  The loop returns True at a successful check that brings the success counter to the
  requirement (at the first successful check when the requirement is not positive), and
  no three failures in a row came before.
\<close>

lemma craft_loop_succeeded:
  assumes "craft_loop req 0 0 rs = Returned True"
  shows "rs ! (craft_loop_iterations req 0 0 rs - 1)
     \<and> successes_in (take (craft_loop_iterations req 0 0 rs) rs) = max req 1
     \<and> \<not> three_fails (take (craft_loop_iterations req 0 0 rs) rs)"
proof -
  let ?n = "craft_loop_iterations req 0 0 rs"
  from craft_loop_last [OF assms] obtain s c where
    b: "craft_loop req 0 0 (take (?n - 1) rs) = Continue s c" and
    l: "craft_body req s c (rs ! (?n - 1)) = Returned True" and
    t: "take ?n rs = take (?n - 1) rs @ [rs ! (?n - 1)]"
    by blast
  have z: "(0::int) \<le> 0" "(0::int) \<le> 2" by simp_all
  from craft_loop_progress [OF b z] have
    q: "0 \<le> c" "c \<le> 2" "s = 0 + successes_in (take (?n - 1) rs)" "s = 0 \<or> s < req"
      "\<not> three_fails (replicate (nat 0) False @ take (?n - 1) rs)"
    by blast+
  from q(3) have p3: "s = successes_in (take (?n - 1) rs)" by simp
  from q(5) have p5: "\<not> three_fails (take (?n - 1) rs)" by simp
  note p = q(1,2) p3 q(4) p5
  from l have r: "rs ! (?n - 1)" and q: "req \<le> s + 1"
    by (auto simp: craft_body_def Let_def split: if_splits)
  from p(3) successes_in_nonneg [of "take (?n - 1) rs"] have "0 \<le> s" by simp
  with p(4) q have "s + 1 = max req 1" by auto
  with p(3) r t have "successes_in (take ?n rs) = max req 1" by simp
  moreover from p(5) t r have "\<not> three_fails (take ?n rs)"
    by (simp add: three_fails_snoc_True)
  ultimately show ?thesis using r by simp
qed

text \<open>
  The loop returns False at a failed check that is the third in a row, before the
  successes have reached a positive requirement.
\<close>

lemma craft_loop_failed:
  assumes "craft_loop req 0 0 rs = Returned False"
  shows "\<not> rs ! (craft_loop_iterations req 0 0 rs - 1)
     \<and> three_fails (take (craft_loop_iterations req 0 0 rs) rs)
     \<and> (0 < req \<longrightarrow> successes_in (take (craft_loop_iterations req 0 0 rs) rs) < req)"
proof -
  let ?n = "craft_loop_iterations req 0 0 rs"
  from craft_loop_last [OF assms] obtain s c where
    b: "craft_loop req 0 0 (take (?n - 1) rs) = Continue s c" and
    l: "craft_body req s c (rs ! (?n - 1)) = Returned False" and
    t: "take ?n rs = take (?n - 1) rs @ [rs ! (?n - 1)]"
    by blast
  have z: "(0::int) \<le> 0" "(0::int) \<le> 2" by simp_all
  from craft_loop_progress [OF b z] have
    q: "0 \<le> c" "c \<le> 2" "s = 0 + successes_in (take (?n - 1) rs)" "s = 0 \<or> s < req"
    by blast+
  from q(3) have p3: "s = successes_in (take (?n - 1) rs)" by simp
  note p = q(1,2) p3 q(4)
  from l p(2) have r: "\<not> rs ! (?n - 1)" and c: "c = 2"
    by (auto simp: craft_body_def Let_def split: if_splits)
  have run: "three_fails (replicate (nat c1) False @ xs @ [False])"
    if "craft_loop req s1 c1 xs = Continue s2 2" "0 \<le> c1" "c1 \<le> 2"
    for xs s1 c1 s2
    using that
  proof (induction xs arbitrary: s1 c1)
    case Nil
    then show ?case by (simp add: numeral_2_eq_2 numeral_3_eq_3)
  next
    case (Cons x xs)
    from Cons.prems(1) obtain s3 c3 where
      b3: "craft_body req s1 c1 x = Continue s3 c3" and
      l3: "craft_loop req s3 c3 xs = Continue s2 2"
      by (auto split: outcome.splits)
    from b3 Cons.prems(2,3) have
      st: "0 \<le> c3" "c3 \<le> 2" "c3 = (if x then 0 else c1 + 1)"
      by (auto simp: craft_body_def Let_def split: if_splits)
    from Cons.IH [OF l3 st(1,2)]
    have ih: "three_fails (replicate (nat c3) False @ xs @ [False])" .
    show ?case
    proof (cases x)
      case True
      with ih st(3) have "three_fails (xs @ [False])" by simp
      then have "three_fails (replicate (nat c1) False @ True # xs @ [False])"
        using three_fails_append_left [of "True # xs @ [False]" "replicate (nat c1) False"]
        by simp
      with True show ?thesis by simp
    next
      case False
      with st(3) Cons.prems(2) have "nat c3 = Suc (nat c1)" by simp
      with ih False show ?thesis by (simp add: replicate_shift)
    qed
  qed
  from run [of 0 0 "take (?n - 1) rs" s] b c
  have "three_fails (take (?n - 1) rs @ [False])" by simp
  with t r have "three_fails (take ?n rs)" by simp
  moreover from p(3,4) r t have "0 < req \<longrightarrow> successes_in (take ?n rs) < req"
    by auto
  ultimately show ?thesis using r by simp
qed

section \<open>Checks that all fail, checks that all succeed\<close>

text \<open>
  Above \<open>modifier + 20\<close> no check succeeds, whether the sum wraps around or not: a sum that
  wraps around becomes smaller.
\<close>

lemma check_at_fail:
  "in_int64 m \<Longrightarrow> m + 20 < dc \<Longrightarrow> \<not> check_at dc m g i"
proof -
  assume m: "in_int64 m" and h: "m + 20 < dc"
  from m d20_range [of g i] have "- (2 ^ 63) \<le> d20 g i + m"
    by (simp add: in_int64_def)
  from int64_wrap_le [OF this] d20_range [of g i] h show ?thesis
    by (simp add: check_at_def)
qed

lemma check_seq_all_fail:
  "in_int64 m \<Longrightarrow> m + 20 < dc \<Longrightarrow> check_seq dc m g n = replicate n False"
proof -
  assume "in_int64 m" "m + 20 < dc"
  then have "check_at dc m g = (\<lambda>i. False)"
    using check_at_fail [of m dc g] by (simp add: fun_eq_iff)
  then show ?thesis
    by (simp add: check_seq_def map_replicate_const)
qed

text \<open>
  At or below \<open>modifier + 1\<close> every check succeeds, provided that no sum wraps around:
  \<open>modifier + 20\<close> is a 64-bit integer.
\<close>

lemma check_at_exact:
  "- (2 ^ 63) \<le> m \<Longrightarrow> m \<le> 2 ^ 63 - 21 \<Longrightarrow> check_at dc m g i = (dc \<le> d20 g i + m)"
proof -
  assume "- (2 ^ 63) \<le> m" "m \<le> 2 ^ 63 - 21"
  with d20_range [of g i] have "in_int64 (d20 g i + m)"
    by (simp add: in_int64_def)
  then show ?thesis
    by (simp add: check_at_def int64_wrap_id)
qed

lemma check_seq_all_succeed:
  "- (2 ^ 63) \<le> m \<Longrightarrow> m \<le> 2 ^ 63 - 21 \<Longrightarrow> dc \<le> m + 1 \<Longrightarrow>
     check_seq dc m g n = replicate n True"
proof -
  assume a: "- (2 ^ 63) \<le> m" "m \<le> 2 ^ 63 - 21" and h: "dc \<le> m + 1"
  have "check_at dc m g i" for i
    using h d20_range [of g i] by (simp add: check_at_exact [OF a])
  then have "check_at dc m g = (\<lambda>i. True)"
    by (simp add: fun_eq_iff)
  then show ?thesis
    by (simp add: check_seq_def map_replicate_const)
qed

text \<open>A sum that wraps around: the largest 64-bit modifier makes every check fail.\<close>

lemma check_at_wrapped: "\<not> check_at 0 (2 ^ 63 - 1) g i"
proof -
  obtain r where r: "d20 g i = r" "1 \<le> r" "r \<le> 20"
    using d20_range [of g i] by simp
  have "(r + (2 ^ 63 - 1) + 2 ^ 63) mod 2 ^ 64 = r - 1"
  proof -
    have "r + (2 ^ 63 - 1) + 2 ^ 63 = (r - 1) + 1 * 2 ^ 64" by simp
    then have "(r + (2 ^ 63 - 1) + 2 ^ 63) mod 2 ^ 64 = (r - 1) mod 2 ^ 64"
      by (simp only: mod_mult_self1)
    also from r have "\<dots> = r - 1" by simp
    finally show ?thesis .
  qed
  with r show ?thesis
    by (simp add: check_at_def int64_wrap_def)
qed

lemma check_seq_wrapped: "check_seq 0 (2 ^ 63 - 1) g n = replicate n False"
proof -
  have "check_at 0 (2 ^ 63 - 1) g = (\<lambda>i. False)"
    using check_at_wrapped [of g] by (simp add: fun_eq_iff)
  then show ?thesis
    by (simp add: check_seq_def map_replicate_const)
qed

lemma replicate_100_split3: "replicate 100 x = x # x # x # replicate 97 x"
proof -
  have "replicate (Suc (Suc (Suc 97))) x = x # x # x # replicate 97 x"
    by (simp only: replicate_Suc)
  then show ?thesis by simp
qed

lemma replicate_100_split5: "replicate 100 x = x # x # x # x # x # replicate 95 x"
proof -
  have "replicate (Suc (Suc (Suc (Suc (Suc 95))))) x = x # x # x # x # x # replicate 95 x"
    by (simp only: replicate_Suc)
  then show ?thesis by simp
qed

lemma craft_loop_three_fails:
  "craft_loop req s 0 (False # False # False # rs) = Returned False
   \<and> craft_loop req s 0 [False, False] = Continue s 2
   \<and> craft_loop_iterations req s 0 (False # False # False # rs) = 3"
  by (simp add: craft_body_def)

lemma craft_loop_succeed_on:
  "s + int n < req \<Longrightarrow> craft_loop req s 0 (replicate n True) = Continue (s + int n) 0"
  by (induction n arbitrary: s) (auto simp: craft_body_def Let_def)

lemma craft_loop_succeed_at:
  "0 < n \<Longrightarrow> req \<le> s + int n \<Longrightarrow> craft_loop req s c (replicate n True) = Returned True"
proof (induction n arbitrary: s c)
  case 0
  then show ?case by simp
next
  case (Suc n)
  show ?case
  proof (cases "req \<le> s + 1")
    case True
    then show ?thesis by (simp add: craft_body_def)
  next
    case False
    with Suc.prems have "0 < n" "req \<le> (s + 1) + int n" by (cases n; simp)+
    from Suc.IH [OF this] False show ?thesis
      by (simp add: craft_body_def)
  qed
qed

lemma list_three:
  "3 \<le> length xs \<Longrightarrow> \<exists>a b c rest. xs = a # b # c # rest"
  by (auto simp: numeral_3_eq_3 Suc_le_length_iff)

text \<open>The hopeless attempt: one invocation, which returns False at its third check.\<close>

lemma craft_all_fail:
  "3 \<le> frames \<Longrightarrow> in_int64 m \<Longrightarrow> m + 20 < dc \<Longrightarrow>
     craft frames dc m req s 0 g = Inr (False, advance 100 g)"
  by (subst craft_unfold)
     (simp_all add: check_seq_all_fail replicate_100_split3 craft_body_def)

text \<open>
  The attempt that cannot fail: each invocation adds 100 successes, so the attempt
  returns True if the stack allows enough invocations and raises RecursionError
  otherwise.
\<close>

lemma craft_all_succeed:
  assumes m: "- (2 ^ 63) \<le> m" "m \<le> 2 ^ 63 - 21" and dc: "dc \<le> m + 1"
  shows "(3 \<le> frames \<and> req \<le> s + 100 * (int frames - 2)
            \<longrightarrow> (\<exists>k. 1 \<le> k \<and> craft frames dc m req s 0 g = Inr (True, advance (100 * k) g)))
       \<and> (\<not> (3 \<le> frames \<and> req \<le> s + 100 * (int frames - 2))
            \<longrightarrow> craft frames dc m req s 0 g = Inl RecursionError)"
proof (induction frames arbitrary: s g)
  case 0
  then show ?case by (simp add: craft_no_frames)
next
  case (Suc n)
  from m have im: "in_int64 m" by (simp add: in_int64_def)
  show ?case
  proof (cases "Suc n < 3")
    case True
    then show ?thesis by (simp add: craft_no_frames)
  next
    case False
    then have f: "3 \<le> Suc n" by simp
    have sq: "check_seq dc m g 100 = replicate 100 True"
      by (rule check_seq_all_succeed [OF m dc])
    show ?thesis
    proof (cases "req \<le> s + 100")
      case True
      then have "craft_loop req s 0 (check_seq dc m g 100) = Returned True"
        using craft_loop_succeed_at [of 100 req s 0] by (simp add: sq)
      then have "craft (Suc n) dc m req s 0 g = Inr (True, advance (100 * 1) g)"
        by (subst craft_unfold [OF f im]) simp
      moreover from True f have "req \<le> s + 100 * (int (Suc n) - 2)" by simp
      ultimately show ?thesis using f by blast
    next
      case False
      then have lp: "craft_loop req s 0 (check_seq dc m g 100) = Continue (s + 100) 0"
        using craft_loop_succeed_on [of s 100 req] by (simp add: sq)
      have st: "craft (Suc n) dc m req s 0 g = craft n dc m req (s + 100) 0 (advance 100 g)"
        by (subst craft_unfold [OF f im]) (simp add: lp)
      have eq: "(3 \<le> n \<and> req \<le> (s + 100) + 100 * (int n - 2))
                  = (3 \<le> Suc n \<and> req \<le> s + 100 * (int (Suc n) - 2))"
        using False f by auto
      show ?thesis
      proof (cases "3 \<le> n \<and> req \<le> (s + 100) + 100 * (int n - 2)")
        case True
        with Suc.IH [of "s + 100" "advance 100 g"] obtain k where
          k: "1 \<le> k" and
          c: "craft n dc m req (s + 100) 0 (advance 100 g)
                = Inr (True, advance (100 * k) (advance 100 g))"
          by blast
        from c st have "craft (Suc n) dc m req s 0 g = Inr (True, advance (100 * Suc k) g)"
          by (simp add: advance_advance)
        moreover have "1 \<le> Suc k" by simp
        ultimately have "\<exists>k. 1 \<le> k
            \<and> craft (Suc n) dc m req s 0 g = Inr (True, advance (100 * k) g)"
          by blast
        with True eq show ?thesis by blast
      next
        case False
        with Suc.IH [of "s + 100" "advance 100 g"]
        have "craft n dc m req (s + 100) 0 (advance 100 g) = Inl RecursionError"
          by blast
        with st have "craft (Suc n) dc m req s 0 g = Inl RecursionError" by simp
        with False eq show ?thesis by blast
      qed
    qed
  qed
qed

section \<open>Claims about craft\<close>

text \<open>
  C2 claims that with a difficulty class above \<open>modifier + 20\<close> \<open>craft\<close> returns False for
  every modifier.  The modifier is added to an array of 64-bit integers: one that is not
  a 64-bit integer, such as \<open>-2^64\<close>, raises OverflowError, also under a difficulty class
  of 0 that it is far below.
\<close>

theorem craft_hopeless_counterexample:
  "- (2 ^ 64) + 20 < (0::int)
   \<and> craft 1000 0 (- (2 ^ 64)) 8 0 0 (constant_rng 0) = Inl OverflowError"
  by (simp add: craft_overflow in_int64_def)

text \<open>
  C2, as the code has it.  When the difficulty class is above \<open>modifier + 20\<close> and the
  modifier is a 64-bit integer, no check succeeds: for every \<open>successes_required\<close> and
  every generator, \<open>craft\<close> called with its default counters (and the three stack frames
  that one invocation takes) returns False from its first invocation.  Its loop has
  processed exactly 3 check results, all failed: after the first 2 it still goes on,
  with 2 failures counted, and the third makes it return.  A modifier that is not a
  64-bit integer raises OverflowError, and fewer than three stack frames RecursionError.
\<close>

theorem craft_hopeless:
  assumes h: "m + 20 < dc"
  shows "(3 \<le> frames \<and> in_int64 m \<longrightarrow>
          (\<exists>results g'. make_checks dc m ROLL_CHUNK g = Inr (results, g')
             \<and> length results = 100
             \<and> take 3 results = [False, False, False]
             \<and> craft_loop req 0 0 (take 2 results) = Continue 0 2
             \<and> craft_loop req 0 0 (take 3 results) = Returned False
             \<and> craft_loop req 0 0 results = Returned False
             \<and> craft_loop_iterations req 0 0 results = 3
             \<and> craft frames dc m req 0 0 g = Inr (False, g')))
       \<and> (3 \<le> frames \<and> \<not> in_int64 m \<longrightarrow> craft frames dc m req 0 0 g = Inl OverflowError)
       \<and> (frames < 3 \<longrightarrow> craft frames dc m req 0 0 g = Inl RecursionError)"
proof (intro conjI impI)
  assume a: "3 \<le> frames \<and> in_int64 m"
  then have f: "3 \<le> frames" and m: "in_int64 m" by simp_all
  let ?rs = "check_seq dc m g 100"
  have rs: "?rs = False # False # False # replicate 97 False"
    by (simp add: check_seq_all_fail [OF m h] replicate_100_split3)
  have "make_checks dc m ROLL_CHUNK g = Inr (?rs, advance 100 g)"
    by (rule make_checks_chunk [OF m])
  moreover have "length ?rs = 100" by (rule length_check_seq)
  moreover have "take 3 ?rs = [False, False, False]"
    by (simp add: rs)
  moreover have "craft_loop req 0 0 (take 2 ?rs) = Continue 0 2"
    by (simp add: rs craft_body_def)
  moreover have "craft_loop req 0 0 (take 3 ?rs) = Returned False"
    by (simp add: rs craft_body_def)
  moreover have "craft_loop req 0 0 ?rs = Returned False"
    by (simp add: rs craft_body_def)
  moreover have "craft_loop_iterations req 0 0 ?rs = 3"
    by (simp add: rs craft_body_def)
  moreover have "craft frames dc m req 0 0 g = Inr (False, advance 100 g)"
    by (rule craft_all_fail [OF f m h])
  ultimately show "\<exists>results g'. make_checks dc m ROLL_CHUNK g = Inr (results, g')
             \<and> length results = 100
             \<and> take 3 results = [False, False, False]
             \<and> craft_loop req 0 0 (take 2 results) = Continue 0 2
             \<and> craft_loop req 0 0 (take 3 results) = Returned False
             \<and> craft_loop req 0 0 results = Returned False
             \<and> craft_loop_iterations req 0 0 results = 3
             \<and> craft frames dc m req 0 0 g = Inr (False, g')"
    by blast
next
  assume "3 \<le> frames \<and> \<not> in_int64 m"
  then show "craft frames dc m req 0 0 g = Inl OverflowError"
    by (simp add: craft_overflow)
next
  assume "frames < 3"
  then show "craft frames dc m req 0 0 g = Inl RecursionError"
    by (rule craft_no_frames)
qed

theorem craft_hopeless_witness:
  "(0::int) + 20 < 21
   \<and> ((3::nat) \<le> 1000 \<and> in_int64 0)
   \<and> (\<exists>results g'. make_checks 21 0 ROLL_CHUNK (constant_rng 0) = Inr (results, g')
       \<and> length results = 100
       \<and> take 3 results = [False, False, False]
       \<and> craft_loop 8 0 0 (take 2 results) = Continue 0 2
       \<and> craft_loop 8 0 0 (take 3 results) = Returned False
       \<and> craft_loop 8 0 0 results = Returned False
       \<and> craft_loop_iterations 8 0 0 results = 3
       \<and> craft 1000 21 0 8 0 0 (constant_rng 0) = Inr (False, g'))"
  using craft_hopeless [of 0 21 1000 "constant_rng 0" 8] by (simp add: in_int64_def)

text \<open>
  C3 claims that with a difficulty class of at most \<open>modifier + 1\<close> and a positive
  requirement \<open>craft\<close> returns True.  With the largest 64-bit modifier every sum wraps
  around to a negative number, every check fails, and \<open>craft\<close> returns False at the third;
  and with 100000 successes required, \<open>craft\<close> needs 1000 nested invocations, which a
  stack of 1000 frames does not hold.
\<close>

theorem craft_sure_success_counterexample:
  "((0::int) \<le> (2 ^ 63 - 1) + 1 \<and> (0::int) < 1
     \<and> craft 1000 0 (2 ^ 63 - 1) 1 0 0 (constant_rng 0)
         = Inr (False, advance 100 (constant_rng 0)))
   \<and> ((1::int) \<le> 0 + 1 \<and> (0::int) < 100000
     \<and> craft 1000 1 0 100000 0 0 (constant_rng 0) = Inl RecursionError)"
proof -
  have i: "in_int64 (2 ^ 63 - 1)" by (simp add: in_int64_def)
  have f: "(3::nat) \<le> 1000" by simp
  have lp: "craft_loop 1 0 0 (check_seq 0 (2 ^ 63 - 1) (constant_rng 0) 100) = Returned False"
    unfolding check_seq_wrapped replicate_100_split3 by (simp add: craft_body_def)
  have "craft 1000 0 (2 ^ 63 - 1) 1 0 0 (constant_rng 0)
         = Inr (False, advance 100 (constant_rng 0))"
    by (subst craft_unfold [OF f i]) (simp only: lp outcome.case)
  moreover have "craft 1000 1 0 100000 0 0 (constant_rng 0) = Inl RecursionError"
    using craft_all_succeed [of 0 1 1000 100000 0 "constant_rng 0"] by simp
  ultimately show ?thesis by simp
qed

text \<open>
  C3, as the code has it.  When the difficulty class is at most \<open>modifier + 1\<close> and no sum
  of a d20 and the modifier leaves the 64-bit integers (the modifier is at least \<open>-2^63\<close>
  and at most \<open>2^63 - 21\<close>), every check succeeds.  Then for every positive
  \<open>successes_required\<close> and every generator \<open>craft\<close> returns True if the stack holds the
  invocations it needs, one for every 100 successes (\<open>successes_required\<close> is at most 100
  times the number of frames beyond the two that \<open>make_checks\<close> and \<open>roll\<close> take), and
  raises RecursionError if not.  With \<open>dc = 11\<close>, \<open>modifier = 11\<close> and 5 required successes
  it returns True from its first invocation, its loop having processed exactly 5 check
  results, all successful: after the first 4 it still goes on, with 4 successes counted.
\<close>

theorem craft_sure_success:
  assumes m: "- (2 ^ 63) \<le> m" "m \<le> 2 ^ 63 - 21" and dc: "dc \<le> m + 1" and req: "0 < req"
  shows "(3 \<le> frames \<and> req \<le> 100 * (int frames - 2)
            \<longrightarrow> (\<exists>g'. craft frames dc m req 0 0 g = Inr (True, g')))
       \<and> (\<not> (3 \<le> frames \<and> req \<le> 100 * (int frames - 2))
            \<longrightarrow> craft frames dc m req 0 0 g = Inl RecursionError)
       \<and> (3 \<le> frames \<longrightarrow>
            (\<exists>results g'. make_checks 11 11 ROLL_CHUNK g = Inr (results, g')
               \<and> take 5 results = [True, True, True, True, True]
               \<and> craft_loop 5 0 0 (take 4 results) = Continue 4 0
               \<and> craft_loop 5 0 0 (take 5 results) = Returned True
               \<and> craft_loop 5 0 0 results = Returned True
               \<and> craft_loop_iterations 5 0 0 results = 5
               \<and> craft frames 11 11 5 0 0 g = Inr (True, g')))"
proof (intro conjI impI)
  assume "3 \<le> frames \<and> req \<le> 100 * (int frames - 2)"
  with craft_all_succeed [OF m dc, of frames req 0 g]
  show "\<exists>g'. craft frames dc m req 0 0 g = Inr (True, g')"
    by auto
next
  assume "\<not> (3 \<le> frames \<and> req \<le> 100 * (int frames - 2))"
  with craft_all_succeed [OF m dc, of frames req 0 g]
  show "craft frames dc m req 0 0 g = Inl RecursionError"
    by auto
next
  assume f: "3 \<le> frames"
  have i: "in_int64 11" by (simp add: in_int64_def)
  let ?rs = "check_seq 11 11 g 100"
  have "?rs = replicate 100 True"
    by (rule check_seq_all_succeed) simp_all
  then have rs: "?rs = True # True # True # True # True # replicate 95 True"
    by (simp add: replicate_100_split5)
  have lp: "craft_loop 5 0 0 ?rs = Returned True"
    by (simp add: rs craft_body_def)
  have "make_checks 11 11 ROLL_CHUNK g = Inr (?rs, advance 100 g)"
    by (rule make_checks_chunk [OF i])
  moreover have "take 5 ?rs = [True, True, True, True, True]"
    by (simp add: rs)
  moreover have "craft_loop 5 0 0 (take 4 ?rs) = Continue 4 0"
    by (simp add: rs craft_body_def)
  moreover have "craft_loop 5 0 0 (take 5 ?rs) = Returned True"
    by (simp add: rs craft_body_def)
  moreover note lp
  moreover have "craft_loop_iterations 5 0 0 ?rs = 5"
    by (simp add: rs craft_body_def)
  moreover have "craft frames 11 11 5 0 0 g = Inr (True, advance 100 g)"
    by (subst craft_unfold [OF f i]) (simp add: lp)
  ultimately show "\<exists>results g'. make_checks 11 11 ROLL_CHUNK g = Inr (results, g')
               \<and> take 5 results = [True, True, True, True, True]
               \<and> craft_loop 5 0 0 (take 4 results) = Continue 4 0
               \<and> craft_loop 5 0 0 (take 5 results) = Returned True
               \<and> craft_loop 5 0 0 results = Returned True
               \<and> craft_loop_iterations 5 0 0 results = 5
               \<and> craft frames 11 11 5 0 0 g = Inr (True, g')"
    by blast
qed

theorem craft_sure_success_witness:
  "(((- (2 ^ 63)) \<le> (9::int) \<and> (9::int) \<le> 2 ^ 63 - 21 \<and> (3::int) \<le> 9 + 1 \<and> (0::int) < 250)
     \<and> ((3::nat) \<le> 1000 \<and> (250::int) \<le> 100 * (int 1000 - 2))
     \<and> (\<exists>g'. craft 1000 3 9 250 0 0 (constant_rng 0) = Inr (True, g')))
   \<and> (\<not> ((3::nat) \<le> 4 \<and> (250::int) \<le> 100 * (int 4 - 2))
     \<and> craft 4 3 9 250 0 0 (constant_rng 0) = Inl RecursionError)"
proof -
  have a: "- (2 ^ 63) \<le> (9::int)" "(9::int) \<le> 2 ^ 63 - 21" "(3::int) \<le> 9 + 1" "(0::int) < 250"
    by simp_all
  have b: "(3::nat) \<le> 1000 \<and> (250::int) \<le> 100 * (int 1000 - 2)" by simp
  have c: "\<not> ((3::nat) \<le> 4 \<and> (250::int) \<le> 100 * (int 4 - 2))" by simp
  from b craft_sure_success [OF a, of 1000 "constant_rng 0"]
  have 1: "\<exists>g'. craft 1000 3 9 250 0 0 (constant_rng 0) = Inr (True, g')"
    by blast
  from c craft_sure_success [OF a, of 4 "constant_rng 0"]
  have 2: "craft 4 3 9 250 0 0 (constant_rng 0) = Inl RecursionError"
    by blast
  from a b c 1 2 show ?thesis by blast
qed

text \<open>
  C1 claims that \<open>craft\<close> with \<open>successes_required \<le> 0\<close> returns True at once and consumes
  nothing.  The code has no such exit: with a difficulty class no d20 can meet and 0
  required successes it draws its 100 values and returns False.
\<close>

theorem craft_zero_required_counterexample:
  "craft 1000 21 0 0 0 0 (constant_rng 0) = Inr (False, advance 100 (constant_rng 0))"
  by (rule craft_all_fail) (simp_all add: in_int64_def)

text \<open>
  C1, as the code has it.  With \<open>successes_required \<le> 0\<close>, \<open>craft\<close> (given a modifier that
  is a 64-bit integer and the three stack frames one invocation takes) draws 100 d20
  values like any other call; the first successful check returns True, three failed
  checks return False first.  So it returns whether one of the first three checks
  succeeded, after processing 1, 2 or 3 check results: on one result fewer its loop
  still goes on.  A modifier that is not a 64-bit integer raises OverflowError, and fewer
  than three stack frames RecursionError.
\<close>

theorem craft_nonpositive_required:
  assumes h: "req \<le> 0"
  shows "(3 \<le> frames \<and> in_int64 m \<longrightarrow>
          (\<exists>results g'. make_checks dc m ROLL_CHUNK g = Inr (results, g')
             \<and> results = check_seq dc m g 100
             \<and> length results = 100 \<and> position g' = position g + 100
             \<and> craft frames dc m req 0 0 g = Inr (results ! 0 \<or> results ! 1 \<or> results ! 2, g')
             \<and> craft_loop_iterations req 0 0 results
                 = (if results ! 0 then 1 else if results ! 1 then 2 else 3)
             \<and> craft_loop req 0 0 (take (craft_loop_iterations req 0 0 results) results)
                 = Returned (results ! 0 \<or> results ! 1 \<or> results ! 2)
             \<and> craft_loop req 0 0 (take (craft_loop_iterations req 0 0 results - 1) results)
                 = Continue 0 (int (craft_loop_iterations req 0 0 results) - 1)))
       \<and> (3 \<le> frames \<and> \<not> in_int64 m \<longrightarrow> craft frames dc m req 0 0 g = Inl OverflowError)
       \<and> (frames < 3 \<longrightarrow> craft frames dc m req 0 0 g = Inl RecursionError)"
proof (intro conjI impI)
  assume a: "3 \<le> frames \<and> in_int64 m"
  then have f: "3 \<le> frames" and m: "in_int64 m" by simp_all
  let ?rs = "check_seq dc m g 100"
  obtain x y z rest where rs: "?rs = x # y # z # rest"
    using list_three [of ?rs] by (auto simp: length_check_seq)
  from h have lp: "craft_loop req 0 0 ?rs = Returned (?rs ! 0 \<or> ?rs ! 1 \<or> ?rs ! 2)"
    by (simp add: rs craft_body_def)
  from h have it: "craft_loop_iterations req 0 0 ?rs
           = (if ?rs ! 0 then 1 else if ?rs ! 1 then 2 else 3)"
    by (simp add: rs craft_body_def)
  from h have p1: "craft_loop req 0 0 (take (craft_loop_iterations req 0 0 ?rs) ?rs)
                 = Returned (?rs ! 0 \<or> ?rs ! 1 \<or> ?rs ! 2)"
    by (cases x; cases y; cases z) (simp_all add: rs craft_body_def)
  from h have p2: "craft_loop req 0 0 (take (craft_loop_iterations req 0 0 ?rs - 1) ?rs)
                 = Continue 0 (int (craft_loop_iterations req 0 0 ?rs) - 1)"
    by (cases x; cases y; cases z) (simp_all add: rs craft_body_def)
  have cr: "craft frames dc m req 0 0 g = Inr (?rs ! 0 \<or> ?rs ! 1 \<or> ?rs ! 2, advance 100 g)"
    by (subst craft_unfold [OF f m]) (simp add: lp)
  have mk: "make_checks dc m ROLL_CHUNK g = Inr (?rs, advance 100 g)"
    by (rule make_checks_chunk [OF m])
  have ln: "length ?rs = 100" by (rule length_check_seq)
  have ps: "position (advance 100 g) = position g + 100" by (rule position_advance)
  from mk ln ps cr it p1 p2
  show "\<exists>results g'. make_checks dc m ROLL_CHUNK g = Inr (results, g')
             \<and> results = check_seq dc m g 100
             \<and> length results = 100 \<and> position g' = position g + 100
             \<and> craft frames dc m req 0 0 g = Inr (results ! 0 \<or> results ! 1 \<or> results ! 2, g')
             \<and> craft_loop_iterations req 0 0 results
                 = (if results ! 0 then 1 else if results ! 1 then 2 else 3)
             \<and> craft_loop req 0 0 (take (craft_loop_iterations req 0 0 results) results)
                 = Returned (results ! 0 \<or> results ! 1 \<or> results ! 2)
             \<and> craft_loop req 0 0 (take (craft_loop_iterations req 0 0 results - 1) results)
                 = Continue 0 (int (craft_loop_iterations req 0 0 results) - 1)"
    by blast
next
  assume "3 \<le> frames \<and> \<not> in_int64 m"
  then show "craft frames dc m req 0 0 g = Inl OverflowError"
    by (simp add: craft_overflow)
next
  assume "frames < 3"
  then show "craft frames dc m req 0 0 g = Inl RecursionError"
    by (rule craft_no_frames)
qed

theorem craft_nonpositive_required_witness:
  "(0::int) \<le> 0
   \<and> ((3::nat) \<le> 1000 \<and> in_int64 0)
   \<and> (\<exists>results g'. make_checks 10 0 ROLL_CHUNK (constant_rng 3) = Inr (results, g')
       \<and> results = check_seq 10 0 (constant_rng 3) 100
       \<and> length results = 100 \<and> position g' = position (constant_rng 3) + 100
       \<and> craft 1000 10 0 0 0 0 (constant_rng 3)
           = Inr (results ! 0 \<or> results ! 1 \<or> results ! 2, g')
       \<and> craft_loop_iterations 0 0 0 results
           = (if results ! 0 then 1 else if results ! 1 then 2 else 3)
       \<and> craft_loop 0 0 0 (take (craft_loop_iterations 0 0 0 results) results)
           = Returned (results ! 0 \<or> results ! 1 \<or> results ! 2)
       \<and> craft_loop 0 0 0 (take (craft_loop_iterations 0 0 0 results - 1) results)
           = Continue 0 (int (craft_loop_iterations 0 0 0 results) - 1))"
proof -
  have a: "(0::int) \<le> 0" by simp
  have b: "(3::nat) \<le> 1000 \<and> in_int64 0" by (simp add: in_int64_def)
  from b craft_nonpositive_required [OF a, of 1000 0 10 "constant_rng 3"]
  show ?thesis by blast
qed




text \<open>
  C10.  Every invocation of \<open>craft\<close> that gets as far as its loop has drawn 100 d20 values
  (\<open>ROLL_CHUNK\<close>) first: \<open>roll\<close> hands out the next 100 values of the generator and moves it
  on by 100 before any check is looked at.  So when the loop returns, after however few
  iterations, the generator is 100 further, and when the array runs out the nested
  invocation starts 100 further.  Whenever \<open>craft\<close> returns, it has moved the generator
  on by a positive multiple of 100, one hundred for every invocation, while its loop has
  processed at most that many checks (in the example of C2, 3 checks for 100 values).
\<close>

theorem craft_draws_whole_chunks:
  "roll 20 ROLL_CHUNK g = Inr (map (d20 g) [0..<100], advance 100 g)
   \<and> position (advance 100 g) = position g + 100
   \<and> (in_int64 m \<longrightarrow>
        make_checks dc m ROLL_CHUNK g = Inr (check_seq dc m g 100, advance 100 g)
        \<and> length (check_seq dc m g 100) = 100)
   \<and> (3 \<le> frames \<and> in_int64 m
        \<and> craft_loop req s c (check_seq dc m g 100) = Returned b \<longrightarrow>
          craft frames dc m req s c g = Inr (b, advance 100 g))
   \<and> (3 \<le> frames \<and> in_int64 m
        \<and> craft_loop req s c (check_seq dc m g 100) = Continue s' c' \<longrightarrow>
          craft frames dc m req s c g = craft (frames - 1) dc m req s' c' (advance 100 g))
   \<and> (craft frames dc m req s c g = Inr (b, g') \<longrightarrow>
        (\<exists>k. 1 \<le> k \<and> k + 2 \<le> frames \<and> g' = advance (100 * k) g
           \<and> position g' = position g + 100 * k
           \<and> craft_loop req s c (check_seq dc m g (100 * k)) = Returned b
           \<and> 100 * (k - 1) < craft_loop_iterations req s c (check_seq dc m g (100 * k))
           \<and> craft_loop_iterations req s c (check_seq dc m g (100 * k)) \<le> 100 * k))"
proof -
  have 1: "roll 20 ROLL_CHUNK g = Inr (map (d20 g) [0..<100], advance 100 g)"
    using roll_20 [of 100 g] by (simp add: ROLL_CHUNK_def)
  have 2: "position (advance 100 g) = position g + 100"
    by (rule position_advance)
  have 3: "in_int64 m \<longrightarrow>
        make_checks dc m ROLL_CHUNK g = Inr (check_seq dc m g 100, advance 100 g)
        \<and> length (check_seq dc m g 100) = 100"
    by (simp add: make_checks_chunk length_check_seq)
  have 4: "3 \<le> frames \<and> in_int64 m
        \<and> craft_loop req s c (check_seq dc m g 100) = Returned b \<longrightarrow>
          craft frames dc m req s c g = Inr (b, advance 100 g)"
  proof
    assume a: "3 \<le> frames \<and> in_int64 m
        \<and> craft_loop req s c (check_seq dc m g 100) = Returned b"
    then have f: "3 \<le> frames" and i: "in_int64 m" by simp_all
    from a show "craft frames dc m req s c g = Inr (b, advance 100 g)"
      by (subst craft_unfold [OF f i]) simp
  qed
  have 5: "3 \<le> frames \<and> in_int64 m
        \<and> craft_loop req s c (check_seq dc m g 100) = Continue s' c' \<longrightarrow>
          craft frames dc m req s c g = craft (frames - 1) dc m req s' c' (advance 100 g)"
  proof
    assume a: "3 \<le> frames \<and> in_int64 m
        \<and> craft_loop req s c (check_seq dc m g 100) = Continue s' c'"
    then have f: "3 \<le> frames" and i: "in_int64 m" by simp_all
    from a show "craft frames dc m req s c g
        = craft (frames - 1) dc m req s' c' (advance 100 g)"
      by (subst craft_unfold [OF f i]) simp
  qed
  have 6: "craft frames dc m req s c g = Inr (b, g') \<longrightarrow>
        (\<exists>k. 1 \<le> k \<and> k + 2 \<le> frames \<and> g' = advance (100 * k) g
           \<and> position g' = position g + 100 * k
           \<and> craft_loop req s c (check_seq dc m g (100 * k)) = Returned b
           \<and> 100 * (k - 1) < craft_loop_iterations req s c (check_seq dc m g (100 * k))
           \<and> craft_loop_iterations req s c (check_seq dc m g (100 * k)) \<le> 100 * k)"
  proof
    assume "craft frames dc m req s c g = Inr (b, g')"
    from craft_returns [OF this] obtain k s' c' where
      k: "1 \<le> k" "k + 2 \<le> frames" and g': "g' = advance (100 * k) g" and
      lp: "craft_loop req s c (check_seq dc m g (100 * k)) = Returned b" and
      lq: "craft_loop req s c (check_seq dc m g (100 * (k - 1))) = Continue s' c'"
      by blast
    let ?rs = "check_seq dc m g (100 * k)"
    let ?n = "craft_loop_iterations req s c ?rs"
    have le: "?n \<le> 100 * k"
      using craft_loop_iterations_le [of req s c ?rs] by (simp add: length_check_seq)
    have lt: "100 * (k - 1) < ?n"
    proof (rule ccontr)
      assume "\<not> 100 * (k - 1) < ?n"
      then have n: "?n \<le> 100 * (k - 1)" by simp
      from k have kk: "100 * (k - 1) \<le> 100 * k" by simp
      from craft_loop_iterations_Returned [OF lp]
      have r: "craft_loop req s c (take ?n ?rs) = Returned b" by blast
      have t1: "take (100 * (k - 1)) ?rs = check_seq dc m g (100 * (k - 1))"
        by (rule take_check_seq [OF kk])
      from n have t2: "take (100 * (k - 1)) ?rs
          = take ?n ?rs @ drop ?n (take (100 * (k - 1)) ?rs)"
        by (metis append_take_drop_id min.absorb1 take_take)
      have "craft_loop req s c (take ?n ?rs @ drop ?n (take (100 * (k - 1)) ?rs))
          = Returned b"
        by (simp only: craft_loop_append r outcome.case)
      then have "craft_loop req s c (take (100 * (k - 1)) ?rs) = Returned b"
        by (simp only: t2 [symmetric])
      then have "craft_loop req s c (check_seq dc m g (100 * (k - 1))) = Returned b"
        by (simp only: t1)
      with lq show False by simp
    qed
    from k g' lp le lt position_advance [of "100 * k" g]
    show "\<exists>k. 1 \<le> k \<and> k + 2 \<le> frames \<and> g' = advance (100 * k) g
           \<and> position g' = position g + 100 * k
           \<and> craft_loop req s c (check_seq dc m g (100 * k)) = Returned b
           \<and> 100 * (k - 1) < craft_loop_iterations req s c (check_seq dc m g (100 * k))
           \<and> craft_loop_iterations req s c (check_seq dc m g (100 * k)) \<le> 100 * k"
      by blast
  qed
  from 1 2 3 4 5 6 show ?thesis by blast
qed

theorem craft_draws_whole_chunks_witness:
  "(in_int64 0
     \<and> make_checks 21 0 ROLL_CHUNK (constant_rng 0)
         = Inr (check_seq 21 0 (constant_rng 0) 100, advance 100 (constant_rng 0))
     \<and> length (check_seq 21 0 (constant_rng 0) 100) = 100)
   \<and> (((3::nat) \<le> 1000 \<and> in_int64 0
        \<and> craft_loop 8 0 0 (check_seq 21 0 (constant_rng 0) 100) = Returned False)
     \<and> craft_loop_iterations 8 0 0 (check_seq 21 0 (constant_rng 0) 100) = 3
     \<and> craft 1000 21 0 8 0 0 (constant_rng 0) = Inr (False, advance 100 (constant_rng 0)))
   \<and> (((3::nat) \<le> 1000 \<and> in_int64 0
        \<and> craft_loop 250 0 0 (check_seq 1 0 (constant_rng 0) 100) = Continue 100 0)
     \<and> craft 1000 1 0 250 0 0 (constant_rng 0)
         = craft (1000 - 1) 1 0 250 100 0 (advance 100 (constant_rng 0)))
   \<and> (craft 1000 21 0 8 0 0 (constant_rng 0) = Inr (False, advance 100 (constant_rng 0))
     \<and> (\<exists>k. 1 \<le> k \<and> k + 2 \<le> (1000::nat)
           \<and> advance 100 (constant_rng 0) = advance (100 * k) (constant_rng 0)
           \<and> position (advance 100 (constant_rng 0)) = position (constant_rng 0) + 100 * k
           \<and> craft_loop 8 0 0 (check_seq 21 0 (constant_rng 0) (100 * k)) = Returned False
           \<and> 100 * (k - 1) < craft_loop_iterations 8 0 0 (check_seq 21 0 (constant_rng 0) (100 * k))
           \<and> craft_loop_iterations 8 0 0 (check_seq 21 0 (constant_rng 0) (100 * k)) \<le> 100 * k))"
proof -
  have i: "in_int64 0" by (simp add: in_int64_def)
  have f: "(3::nat) \<le> 1000" by simp
  have sf: "check_seq 21 0 (constant_rng 0) 100 = replicate 100 False"
    by (rule check_seq_all_fail [OF i]) simp
  have ss: "check_seq 1 0 (constant_rng 0) 100 = replicate 100 True"
    by (rule check_seq_all_succeed) simp_all
  have h1: "craft_loop 8 0 0 (check_seq 21 0 (constant_rng 0) 100) = Returned False"
    by (simp add: sf replicate_100_split3 craft_body_def)
  have it: "craft_loop_iterations 8 0 0 (check_seq 21 0 (constant_rng 0) 100) = 3"
    by (simp add: sf replicate_100_split3 craft_body_def)
  have h2: "craft_loop 250 0 0 (check_seq 1 0 (constant_rng 0) 100) = Continue 100 0"
    using craft_loop_succeed_on [of 0 100 250] by (simp add: ss)
  note t = craft_draws_whole_chunks
  from i t [of "constant_rng 0" 0 21]
  have 1: "make_checks 21 0 ROLL_CHUNK (constant_rng 0)
         = Inr (check_seq 21 0 (constant_rng 0) 100, advance 100 (constant_rng 0))
     \<and> length (check_seq 21 0 (constant_rng 0) 100) = 100"
    by blast
  from i f h1 t [of "constant_rng 0" 0 21 1000 8 0 0 False]
  have 2: "craft 1000 21 0 8 0 0 (constant_rng 0) = Inr (False, advance 100 (constant_rng 0))"
    by blast
  from i f h2 t [of "constant_rng 0" 0 1 1000 250 0 0 _ 100 0]
  have 3: "craft 1000 1 0 250 0 0 (constant_rng 0)
         = craft (1000 - 1) 1 0 250 100 0 (advance 100 (constant_rng 0))"
    by blast
  from 2 t [of "constant_rng 0" 0 21 1000 8 0 0 False _ _ "advance 100 (constant_rng 0)"]
  have 4: "\<exists>k. 1 \<le> k \<and> k + 2 \<le> (1000::nat)
           \<and> advance 100 (constant_rng 0) = advance (100 * k) (constant_rng 0)
           \<and> position (advance 100 (constant_rng 0)) = position (constant_rng 0) + 100 * k
           \<and> craft_loop 8 0 0 (check_seq 21 0 (constant_rng 0) (100 * k)) = Returned False
           \<and> 100 * (k - 1) < craft_loop_iterations 8 0 0 (check_seq 21 0 (constant_rng 0) (100 * k))
           \<and> craft_loop_iterations 8 0 0 (check_seq 21 0 (constant_rng 0) (100 * k)) \<le> 100 * k"
    by blast
  from i f h1 h2 it 1 2 3 4 show ?thesis by blast
qed

section \<open>Claims about make\_checks and the generator\<close>




section \<open>Claims about invalid parameters\<close>

text \<open>
  C5 claims that a die size below 1 or a number of trials below 1 is rejected with a
  configuration error before any simulation.  The main block validates nothing: with 0
  trials the list of outcomes is empty and the division by its length raises
  ZeroDivisionError, which is not a configuration error.
\<close>

theorem main_no_trials_counterexample:
  "main 1000 18 9 8 0 (constant_rng 0) = Inl ZeroDivisionError
   \<and> \<not> is_configuration_error ZeroDivisionError"
  by (simp add: main_def)

text \<open>
  C5, as the code has it.  No parameter is validated.  With a number of trials below 1
  the main block runs no attempt and raises ZeroDivisionError where it divides by the
  length of the empty list of outcomes, whatever the other parameters and the stack.
  \<open>roll\<close> with a die size below 1 and a positive count raises the ValueError of the
  library's \<open>randint\<close>, to which it passes the die size unchecked.
\<close>

theorem no_parameter_validation:
  "(n_repeats < 1 \<longrightarrow> main frames dc m req n_repeats g = Inl ZeroDivisionError)
   \<and> (die < 1 \<and> 0 < number \<longrightarrow> roll die number g = Inl ValueError)"
  by (simp add: main_def roll_def np_random_randint_def)

theorem no_parameter_validation_witness:
  "((-2::int) < 1 \<and> main 1000 18 9 8 (-2) (constant_rng 0) = Inl ZeroDivisionError)
   \<and> (((0::int) < 1 \<and> (0::int) < 5) \<and> roll 0 5 (constant_rng 0) = Inl ValueError)"
  using no_parameter_validation [of "-2" 1000 18 9 8 "constant_rng 0" 0 5] by simp

end
